theory Spec2Isabelle
  imports Complex_Main "HOL-Library.Multiset" "HOL-Library.Product_Lexorder"
    "HOL-Library.List_Lexorder" "HOL-Library.Char_ord"
begin

section \<open>Image Collate V3.2: candidate records\<close>

text \<open>
  The collation script keeps every candidate image as the Python tuple
  \<^verbatim>\<open>(image, dominant_color, whiteness, blackness, filename)\<close>.
  The decoded picture is opaque here (type \<open>'img\<close>: it is produced by the image
  library), the dominant colour is the R,G,B average, whiteness and blackness are the
  pixel-count ratios.  The numeric features are Python floats; they are modelled as
  reals, so rounding of the float arithmetic is not part of the model.
\<close>

type_synonym color = "real \<times> real \<times> real"

type_synonym 'img image_data = "'img \<times> color \<times> real \<times> real \<times> string"

fun image_of :: "'img image_data \<Rightarrow> 'img" where
  "image_of (img, dc, w, b, fname) = img"

fun dominant_color_of :: "'img image_data \<Rightarrow> color" where
  "dominant_color_of (img, dc, w, b, fname) = dc"

fun whiteness_of :: "'img image_data \<Rightarrow> real" where
  "whiteness_of (img, dc, w, b, fname) = w"

fun blackness_of :: "'img image_data \<Rightarrow> real" where
  "blackness_of (img, dc, w, b, fname) = b"


section \<open>The grouper\<close>

text \<open>
  \<^verbatim>\<open>np.linalg.norm(np.array(x[1]) - np.array([128, 128, 128]))\<close>:
  the Euclidean distance of the dominant colour from mid-gray.
\<close>

fun gray_distance :: "color \<Rightarrow> real" where
  "gray_distance (r, g, b) = sqrt ((r - 128)\<^sup>2 + (g - 128)\<^sup>2 + (b - 128)\<^sup>2)"

text \<open>
  The key of the sort, \<^verbatim>\<open>lambda x: (-x[3], x[2], norm)\<close>.  Python compares
  tuples lexicographically, which is the order of \<open>Product_Lexorder\<close>.
\<close>

definition sort_key_of :: "'img image_data \<Rightarrow> real \<times> real \<times> real" where
  "sort_key_of x = (- blackness_of x, whiteness_of x, gray_distance (dominant_color_of x))"

text \<open>
  \<^verbatim>\<open>images.sort(key=...)\<close> is Python's built-in sort: ascending in the key
  and stable.  \<open>sort_key\<close> is the stable insertion sort of the list library.
\<close>

definition group_images_by_blackness_whiteness_and_color ::
  "'img image_data list \<Rightarrow> 'img image_data list" where
  "group_images_by_blackness_whiteness_and_color images = sort_key sort_key_of images"



section \<open>The compositor\<close>

text \<open>
  Python's slice \<^verbatim>\<open>xs[:n]\<close>: the first \<open>n\<close> elements, and for a negative
  \<open>n\<close> all but the last \<open>-n\<close>.
\<close>

definition py_take :: "int \<Rightarrow> 'a list \<Rightarrow> 'a list" where
  "py_take n xs = (if 0 \<le> n then take (nat n) xs else take (length xs - nat (- n)) xs)"

text \<open>\<^verbatim>\<open>enumerate(xs)\<close>: the elements with their indices, from 0.\<close>

definition enumerate_py :: "'a list \<Rightarrow> (int \<times> 'a) list" where
  "enumerate_py xs = zip (map int [0..<length xs]) xs"

text \<open>
  A stitched image: the size given to \<^verbatim>\<open>Image.new\<close> and the
  \<^verbatim>\<open>paste\<close> calls in the order they are made, each with the picture and
  the offset \<open>(x, y)\<close> of its top-left corner.
\<close>

record 'img stitched =
  canvas_size :: "int \<times> int"
  pastes :: "('img \<times> int \<times> int) list"

text \<open>
  The cell of the picture at index \<open>j\<close>: \<^verbatim>\<open>row, col = divmod(j, grid_size[1])\<close>.
  Python's \<open>divmod\<close> on integers rounds to minus infinity, as \<open>div\<close> and \<open>mod\<close> on
  \<open>int\<close> do.
\<close>

definition cell_of :: "int \<times> int \<Rightarrow> int \<Rightarrow> int \<times> int" where
  "cell_of grid_size j = (j div snd grid_size, j mod snd grid_size)"

definition paste_of :: "int \<times> int \<Rightarrow> int \<times> int \<Rightarrow> int \<times> 'img image_data \<Rightarrow> 'img \<times> int \<times> int" where
  "paste_of grid_size image_size p =
     (case p of (j, x) \<Rightarrow>
        (case cell_of grid_size j of (row, col) \<Rightarrow>
           (image_of x, col * fst image_size, row * snd image_size)))"

text \<open>
  The stitching block of \<^verbatim>\<open>process_category\<close>; \<open>grid_size\<close> is
  \<open>(rows, cols)\<close> and \<open>image_size\<close> is \<open>(width, height)\<close>.
\<close>

definition stitch :: "int \<times> int \<Rightarrow> int \<times> int \<Rightarrow> 'img image_data list \<Rightarrow> 'img stitched" where
  "stitch grid_size image_size images =
     \<lparr> canvas_size = (snd grid_size * fst image_size, fst grid_size * snd image_size),
       pastes = map (paste_of grid_size image_size)
                  (enumerate_py (py_take (fst grid_size * snd grid_size) images)) \<rparr>"

section \<open>The directory tree\<close>

text \<open>
  A snapshot of the input directory: a file with its content, or a directory with its
  entries in the order \<^verbatim>\<open>os.listdir\<close> returns them.  A path is the list of
  its components, \<^verbatim>\<open>os.path.join(p, name)\<close> is \<open>p @ [name]\<close>.
\<close>

type_synonym path = "string list"

datatype 'c node = File 'c | Dir "(string \<times> 'c node) list"

fun lookup :: "'c node \<Rightarrow> path \<Rightarrow> 'c node option" where
  "lookup n [] = Some n"
| "lookup (File c) (x # p) = None"
| "lookup (Dir es) (x # p) = (case map_of es x of None \<Rightarrow> None | Some n \<Rightarrow> lookup n p)"

definition isdir :: "'c node \<Rightarrow> path \<Rightarrow> bool" where
  "isdir fs p = (case lookup fs p of Some (Dir es) \<Rightarrow> True | _ \<Rightarrow> False)"

definition isfile :: "'c node \<Rightarrow> path \<Rightarrow> bool" where
  "isfile fs p = (case lookup fs p of Some (File c) \<Rightarrow> True | _ \<Rightarrow> False)"

text \<open>\<^verbatim>\<open>os.listdir\<close> raises on a path that is not a directory: \<open>None\<close>.\<close>

definition listdir :: "'c node \<Rightarrow> path \<Rightarrow> string list option" where
  "listdir fs p = (case lookup fs p of Some (Dir es) \<Rightarrow> Some (map fst es) | _ \<Rightarrow> None)"

text \<open>
  \<^verbatim>\<open>f.lower().endswith((".png", ".jpg", ".jpeg"))\<close>, on ASCII names.
\<close>

definition lower_char :: "char \<Rightarrow> char" where
  "lower_char c =
     (case map_of (zip ''ABCDEFGHIJKLMNOPQRSTUVWXYZ'' ''abcdefghijklmnopqrstuvwxyz'') c of
        None \<Rightarrow> c | Some d \<Rightarrow> d)"

definition endswith :: "string \<Rightarrow> string \<Rightarrow> bool" where
  "endswith s suf = (length suf \<le> length s \<and> drop (length s - length suf) s = suf)"

definition is_image_name :: "string \<Rightarrow> bool" where
  "is_image_name f =
     (let l = map lower_char f
      in endswith l ''.png'' \<or> endswith l ''.jpg'' \<or> endswith l ''.jpeg'')"

section \<open>The image library, the ledger and the effects\<close>

text \<open>
  What the script takes from Pillow, numpy and imagehash.
  \<^item> \<open>load_image size content\<close> is the block \<^verbatim>\<open>Image.open\<close>,
    \<^verbatim>\<open>resize\<close>, \<^verbatim>\<open>get_dominant_color\<close>, \<^verbatim>\<open>calculate_whiteness\<close>,
    \<^verbatim>\<open>calculate_blackness\<close>, \<^verbatim>\<open>get_perceptual_hash\<close> on a file's
    content: the picture, its features and its hash, or \<open>None\<close> when one of the calls
    raises.
  \<^item> \<open>hash_str\<close> is \<^verbatim>\<open>str(perceptual_hash)\<close>.
  \<^item> The dictionary \<^verbatim>\<open>processed_images\<close> holds the strings read from the
    CSV file and the hash objects added during the run.  Whether a string and a hash
    object are the same key is decided by the hash library; \<open>'k\<close> is the type of keys
    up to that equality, \<open>str_key\<close> and \<open>hash_key\<close> take a string and a hash
    object to their keys.
  \<^item> \<open>save_ok name s\<close> tells whether \<^verbatim>\<open>Image.new\<close>, the
    \<^verbatim>\<open>paste\<close> calls and \<^verbatim>\<open>save\<close> of the stitched image succeed;
    when they raise, nothing in \<^verbatim>\<open>process_category\<close> catches it.
\<close>

type_synonym out_name = "string \<times> string \<times> int"

record ('c, 'img, 'h, 'k) codec =
  load_image :: "int \<times> int \<Rightarrow> 'c \<Rightarrow> ('img \<times> color \<times> real \<times> real \<times> 'h) option"
  hash_str :: "'h \<Rightarrow> string"
  hash_key :: "'h \<Rightarrow> 'k"
  str_key :: "string \<Rightarrow> 'k"
  save_ok :: "out_name \<Rightarrow> 'img stitched \<Rightarrow> bool"

text \<open>
  A log entry is \<^verbatim>\<open>(category, subcategory, batch_number, str(hash), filename)\<close>.
  The stitched image of a batch is named by category, subcategory and batch number
  (\<^verbatim>\<open>f"{category}-{subcategory}-{batch_number}.png"\<close>).
\<close>

type_synonym log_row = "string \<times> string \<times> int \<times> string \<times> string"

text \<open>The calls with an effect outside the process, in the order they are made.\<close>

datatype 'img event =
    ListDir path
  | OpenImage path
  | SavePNG out_name "'img stitched"
  | ConvertDDS out_name
  | WriteLog "log_row list"

record sub_summary =
  sub_images_in_folder :: int
  sub_checked :: int
  sub_duplicates_found :: int
  sub_processed :: int
  sub_stitched_batches :: int

text \<open>
  \<^verbatim>\<open>category_summaries[category]\<close>: the six counters of the category and one
  entry for each subcategory.  (The record keeps the two apart; in the script they share
  one dictionary, so a subcategory must not be named like a counter.)
\<close>

record summary =
  images_in_folder :: int
  checked :: int
  duplicates_found :: int
  processed :: int
  stitched_batches :: int
  duplicate_files :: "string list"
  subcategory_summaries :: "string \<rightharpoonup> sub_summary"

text \<open>
  The variables of \<^verbatim>\<open>process_category\<close> and of its caller.
  \<open>cat_summary\<close> is the dictionary \<^verbatim>\<open>category_summaries[category]\<close> of
  the category being processed: it is created before the loop over the subcategories and
  changed in place.
\<close>

record ('img, 'k) state =
  available_images :: "string list"
  images :: "'img image_data list"
  batch_log :: "log_row list"
  checked_in_category :: int
  duplicates_in_category :: int
  processed_in_category :: int
  stitched_in_category :: int
  batch_number :: int
  cat_summary :: summary
  category_summaries :: "string \<rightharpoonup> summary"
  processed_images :: "'k \<rightharpoonup> int"
  log_entries :: "log_row list"
  trace :: "'img event list"

section \<open>The orchestrator: \<^verbatim>\<open>process_category\<close>\<close>

definition capacity :: "int \<times> int \<Rightarrow> int" where
  "capacity grid_size = fst grid_size * snd grid_size"

definition open_image ::
  "('c, 'img, 'h, 'k) codec \<Rightarrow> 'c node \<Rightarrow> int \<times> int \<Rightarrow> path \<Rightarrow>
     ('img \<times> color \<times> real \<times> real \<times> 'h) option" where
  "open_image cd fs image_size input_path =
     (case lookup fs input_path of
        Some (File c) \<Rightarrow> load_image cd image_size c
      | _ \<Rightarrow> None)"

text \<open>
  The body of the inner loop for the file name just popped: the checked counter, then
  the \<^verbatim>\<open>try\<close> block, whose \<^verbatim>\<open>except\<close> only logs.
\<close>

definition check_image ::
  "('c, 'img, 'h, 'k) codec \<Rightarrow> 'c node \<Rightarrow> int \<times> int \<Rightarrow> string \<Rightarrow> string \<Rightarrow> path \<Rightarrow>
     string \<Rightarrow> ('img, 'k) state \<Rightarrow> ('img, 'k) state" where
  "check_image cd fs image_size category subcategory subcategory_path filename s =
     (let input_path = subcategory_path @ [filename];
          s1 = s\<lparr>checked_in_category := checked_in_category s + 1,
                 trace := trace s @ [OpenImage input_path]\<rparr>
      in case open_image cd fs image_size input_path of
           None \<Rightarrow> s1
         | Some (img, dominant_color, whiteness, blackness, perceptual_hash) \<Rightarrow>
             if processed_images s1 (hash_key cd perceptual_hash) \<noteq> None then
               s1\<lparr>duplicates_in_category := duplicates_in_category s1 + 1,
                  cat_summary := (cat_summary s1)
                    \<lparr>duplicate_files := duplicate_files (cat_summary s1) @ [filename]\<rparr>\<rparr>
             else
               s1\<lparr>images := images s1 @ [(img, dominant_color, whiteness, blackness, filename)],
                  batch_log := batch_log s1 @
                    [(category, subcategory, batch_number s1, hash_str cd perceptual_hash, filename)],
                  processed_images :=
                    (processed_images s1)(hash_key cd perceptual_hash \<mapsto> batch_number s1)\<rparr>)"

lemma available_images_check_image [simp]:
  "available_images (check_image cd fs image_size category subcategory subcategory_path filename s)
     = available_images s"
  by (simp add: check_image_def Let_def split: option.splits prod.splits)

text \<open>
  The inner loop,
  \<^verbatim>\<open>while len(images) < grid_size[0] * grid_size[1] and available_images\<close>.
\<close>

function collect ::
  "('c, 'img, 'h, 'k) codec \<Rightarrow> 'c node \<Rightarrow> int \<times> int \<Rightarrow> int \<times> int \<Rightarrow> string \<Rightarrow> string \<Rightarrow> path \<Rightarrow>
     ('img, 'k) state \<Rightarrow> ('img, 'k) state" where
  "collect cd fs grid_size image_size category subcategory subcategory_path s =
     (case available_images s of
        [] \<Rightarrow> s
      | filename # rest \<Rightarrow>
          if int (length (images s)) < capacity grid_size then
            collect cd fs grid_size image_size category subcategory subcategory_path
              (check_image cd fs image_size category subcategory subcategory_path filename
                 (s\<lparr>available_images := rest\<rparr>))
          else s)"
  by pat_completeness auto
termination
  by (relation "measure (\<lambda>(cd, fs, grid_size, image_size, category, subcategory, subcategory_path, s).
        length (available_images s))") auto

declare collect.simps [simp del]

lemma images_check_image_length:
  "length (images (check_image cd fs image_size category subcategory subcategory_path filename s))
     \<le> Suc (length (images s))"
  by (simp add: check_image_def Let_def split: option.splits prod.splits)

lemma collect_measure:
  "length (available_images (collect cd fs grid_size image_size category subcategory subcategory_path s))
     + length (images (collect cd fs grid_size image_size category subcategory subcategory_path s))
   \<le> length (available_images s) + length (images s)"
proof (induction cd fs grid_size image_size category subcategory subcategory_path s
    rule: collect.induct)
  case (1 cd fs grid_size image_size category subcategory subcategory_path s)
  show ?case
  proof (cases "available_images s")
    case Nil
    then show ?thesis
      by (simp add: collect.simps [of _ _ _ _ _ _ _ s])
  next
    case (Cons filename rest)
    show ?thesis
    proof (cases "int (length (images s)) < capacity grid_size")
      case True
      let ?s' = "check_image cd fs image_size category subcategory subcategory_path filename
                   (s\<lparr>available_images := rest\<rparr>)"
      have "length (available_images (collect cd fs grid_size image_size category subcategory subcategory_path ?s'))
            + length (images (collect cd fs grid_size image_size category subcategory subcategory_path ?s'))
            \<le> length (available_images ?s') + length (images ?s')"
        using "1.IH" [OF Cons True] .
      also have "\<dots> \<le> length rest + Suc (length (images s))"
        using images_check_image_length [of cd fs image_size category subcategory subcategory_path filename "s\<lparr>available_images := rest\<rparr>"]
        by simp
      finally show ?thesis
        using Cons True by (simp add: collect.simps [of _ _ _ _ _ _ _ s])
    next
      case False
      then show ?thesis
        using Cons by (simp add: collect.simps [of _ _ _ _ _ _ _ s])
    qed
  qed
qed

lemma collect_shrinks:
  assumes "images (collect cd fs grid_size image_size category subcategory subcategory_path
             (s\<lparr>batch_log := [], images := []\<rparr>)) \<noteq> []"
  shows "length (available_images (collect cd fs grid_size image_size category subcategory subcategory_path
             (s\<lparr>batch_log := [], images := []\<rparr>))) < length (available_images s)"
  using assms
    collect_measure [of cd fs grid_size image_size category subcategory subcategory_path
      "s\<lparr>batch_log := [], images := []\<rparr>"]
  by (cases "images (collect cd fs grid_size image_size category subcategory subcategory_path
             (s\<lparr>batch_log := [], images := []\<rparr>))") simp_all

text \<open>
  The outer loop \<^verbatim>\<open>while available_images\<close> of one subcategory.  A run of
  the inner loop that finds no candidate leaves the loop (\<^verbatim>\<open>break\<close>); a pool
  shorter than the grid is skipped (\<^verbatim>\<open>continue\<close>); a full pool is stitched,
  saved and converted, and only then are its log entries kept and the batch number
  incremented.  When stitching or saving raises, the exception leaves
  \<^verbatim>\<open>process_category\<close>: the result is \<open>Inl\<close> with the effects so far.
\<close>

function batches ::
  "('c, 'img, 'h, 'k) codec \<Rightarrow> 'c node \<Rightarrow> int \<times> int \<Rightarrow> int \<times> int \<Rightarrow> string \<Rightarrow> string \<Rightarrow> path \<Rightarrow>
     ('img, 'k) state \<Rightarrow> 'img event list + ('img, 'k) state" where
  "batches cd fs grid_size image_size category subcategory subcategory_path s =
     (if available_images s = [] then Inr s
      else
        let s1 = collect cd fs grid_size image_size category subcategory subcategory_path
                   (s\<lparr>batch_log := [], images := []\<rparr>)
        in if images s1 = [] then Inr s1
           else
             let s2 = s1\<lparr>images := group_images_by_blackness_whiteness_and_color (images s1)\<rparr>
             in if int (length (images s2)) < capacity grid_size then
                  batches cd fs grid_size image_size category subcategory subcategory_path s2
                else
                  let stitched_image = stitch grid_size image_size (images s2);
                      name = (category, subcategory, batch_number s2)
                  in if save_ok cd name stitched_image then
                       batches cd fs grid_size image_size category subcategory subcategory_path
                         (s2\<lparr>trace := trace s2 @ [SavePNG name stitched_image, ConvertDDS name],
                             log_entries := log_entries s2 @ batch_log s2,
                             cat_summary := (cat_summary s2)
                               \<lparr>stitched_batches := stitched_batches (cat_summary s2) + 1\<rparr>,
                             processed_in_category :=
                               processed_in_category s2 + int (length (images s2)),
                             stitched_in_category := stitched_in_category s2 + 1,
                             batch_number := batch_number s2 + 1\<rparr>)
                     else Inl (trace s2))"
  by pat_completeness auto
termination
  by (relation "measure (\<lambda>(cd, fs, grid_size, image_size, category, subcategory, subcategory_path, s).
        length (available_images s))") (auto simp: collect_shrinks)


declare batches.simps [simp del]

text \<open>
  The path whose files are read for a subcategory: the category's own directory
  for the name \<^verbatim>\<open>'main'\<close>.
\<close>

definition subcategory_path_of :: "path \<Rightarrow> string \<Rightarrow> path" where
  "subcategory_path_of category_path subcategory =
     (if subcategory = ''main'' then category_path else category_path @ [subcategory])"

text \<open>
  The list comprehension over \<^verbatim>\<open>os.listdir(subcategory_path)\<close> that
  keeps the regular files with an image extension.
\<close>

definition list_images :: "'c node \<Rightarrow> path \<Rightarrow> string list option" where
  "list_images fs p =
     (case listdir fs p of
        None \<Rightarrow> None
      | Some names \<Rightarrow> Some (filter (\<lambda>f. isfile fs (p @ [f]) \<and> is_image_name f) names))"

text \<open>
  The body of the loop over the subcategories.  The subcategory's summary is written
  after the loop over the batches, from the variables as they are then.
\<close>

definition process_subcategory ::
  "('c, 'img, 'h, 'k) codec \<Rightarrow> 'c node \<Rightarrow> int \<times> int \<Rightarrow> int \<times> int \<Rightarrow> string \<Rightarrow> path \<Rightarrow> string \<Rightarrow>
     ('img, 'k) state \<Rightarrow> 'img event list + ('img, 'k) state" where
  "process_subcategory cd fs grid_size image_size category category_path subcategory s =
     (let subcategory_path = subcategory_path_of category_path subcategory;
          s0 = s\<lparr>trace := trace s @ [ListDir subcategory_path]\<rparr>
      in case list_images fs subcategory_path of
           None \<Rightarrow> Inl (trace s0)
         | Some available \<Rightarrow>
             if available = [] then Inr (s0\<lparr>available_images := available\<rparr>)
             else
               (case batches cd fs grid_size image_size category subcategory subcategory_path
                       (s0\<lparr>available_images := available,
                           cat_summary := (cat_summary s0)
                             \<lparr>images_in_folder :=
                                images_in_folder (cat_summary s0) + int (length available)\<rparr>,
                           processed_in_category := 0,
                           checked_in_category := 0,
                           duplicates_in_category := 0,
                           stitched_in_category := 0,
                           batch_number := 1\<rparr>) of
                  Inl t \<Rightarrow> Inl t
                | Inr s1 \<Rightarrow>
                    Inr (s1\<lparr>cat_summary := (cat_summary s1)
                           \<lparr>checked := checked (cat_summary s1) + checked_in_category s1,
                            duplicates_found :=
                              duplicates_found (cat_summary s1) + duplicates_in_category s1,
                            processed := processed (cat_summary s1) + processed_in_category s1,
                            subcategory_summaries :=
                              (subcategory_summaries (cat_summary s1))(subcategory \<mapsto>
                                 \<lparr>sub_images_in_folder = int (length (available_images s1)),
                                  sub_checked = checked_in_category s1,
                                  sub_duplicates_found = duplicates_in_category s1,
                                  sub_processed = processed_in_category s1,
                                  sub_stitched_batches = stitched_in_category s1\<rparr>)\<rparr>\<rparr>)))"

fun process_subcategories ::
  "('c, 'img, 'h, 'k) codec \<Rightarrow> 'c node \<Rightarrow> int \<times> int \<Rightarrow> int \<times> int \<Rightarrow> string \<Rightarrow> path \<Rightarrow> string list \<Rightarrow>
     ('img, 'k) state \<Rightarrow> 'img event list + ('img, 'k) state" where
  "process_subcategories cd fs grid_size image_size category category_path [] s = Inr s"
| "process_subcategories cd fs grid_size image_size category category_path (subcategory # rest) s =
     (case process_subcategory cd fs grid_size image_size category category_path subcategory s of
        Inl t \<Rightarrow> Inl t
      | Inr s1 \<Rightarrow> process_subcategories cd fs grid_size image_size category category_path rest s1)"

definition subcategories_of :: "'c node \<Rightarrow> path \<Rightarrow> string list \<Rightarrow> string list" where
  "subcategories_of fs category_path names =
     (let subcategories = filter (\<lambda>subcategory. isdir fs (category_path @ [subcategory])) names
      in if ''main'' \<in> set subcategories then subcategories else subcategories @ [''main''])"

definition new_summary :: summary where
  "new_summary =
     \<lparr>images_in_folder = 0, checked = 0, duplicates_found = 0, processed = 0,
      stitched_batches = 0, duplicate_files = [], subcategory_summaries = Map.empty\<rparr>"

text \<open>
  \<^verbatim>\<open>process_category\<close>.  The summary of the category is threaded as
  \<open>cat_summary\<close> and is stored under the category's name when the category is done.
\<close>

definition process_category ::
  "('c, 'img, 'h, 'k) codec \<Rightarrow> 'c node \<Rightarrow> path \<Rightarrow> int \<times> int \<Rightarrow> int \<times> int \<Rightarrow> string \<Rightarrow>
     ('img, 'k) state \<Rightarrow> 'img event list + ('img, 'k) state" where
  "process_category cd fs input_dir grid_size image_size category s =
     (let category_path = input_dir @ [category]
      in if \<not> isdir fs category_path then Inr s
         else
           let s0 = s\<lparr>trace := trace s @ [ListDir category_path]\<rparr>
           in case listdir fs category_path of
                None \<Rightarrow> Inl (trace s0)
              | Some names \<Rightarrow>
                  (case process_subcategories cd fs grid_size image_size category category_path
                          (subcategories_of fs category_path names)
                          (s0\<lparr>cat_summary := new_summary\<rparr>) of
                     Inl t \<Rightarrow> Inl t
                   | Inr s1 \<Rightarrow>
                       Inr (s1\<lparr>category_summaries :=
                              (category_summaries s1)(category \<mapsto> cat_summary s1)\<rparr>)))"

fun process_categories ::
  "('c, 'img, 'h, 'k) codec \<Rightarrow> 'c node \<Rightarrow> path \<Rightarrow> int \<times> int \<Rightarrow> int \<times> int \<Rightarrow> string list \<Rightarrow>
     ('img, 'k) state \<Rightarrow> 'img event list + ('img, 'k) state" where
  "process_categories cd fs input_dir grid_size image_size [] s = Inr s"
| "process_categories cd fs input_dir grid_size image_size (category # rest) s =
     (case process_category cd fs input_dir grid_size image_size category s of
        Inl t \<Rightarrow> Inl t
      | Inr s1 \<Rightarrow> process_categories cd fs input_dir grid_size image_size rest s1)"

section \<open>The ledger file and \<^verbatim>\<open>stitch_images\<close>\<close>

text \<open>
  The CSV file: \<open>None\<close> when it does not exist, else its lines.  A data line holds a
  log entry; on any other line (a header) \<^verbatim>\<open>int(row[2])\<close> raises.
  \<^verbatim>\<open>load_processed_images\<close> skips the first line and stores the batch number
  under the hash string of each following line.
\<close>

datatype csv_line = HeaderLine | DataLine log_row

fun load_rows :: "('c, 'img, 'h, 'k) codec \<Rightarrow> csv_line list \<Rightarrow> ('k \<rightharpoonup> int) \<Rightarrow> ('k \<rightharpoonup> int) option" where
  "load_rows cd [] m = Some m"
| "load_rows cd (HeaderLine # rest) m = None"
| "load_rows cd (DataLine (category, subcategory, batch_no, perceptual_hash, filename) # rest) m =
     load_rows cd rest (m(str_key cd perceptual_hash \<mapsto> batch_no))"

definition load_processed_images ::
  "('c, 'img, 'h, 'k) codec \<Rightarrow> csv_line list option \<Rightarrow> ('k \<rightharpoonup> int) option" where
  "load_processed_images cd log_csv =
     (case log_csv of
        None \<Rightarrow> Some Map.empty
      | Some file_lines \<Rightarrow> load_rows cd (drop 1 file_lines) Map.empty)"

definition write_log_to_csv :: "csv_line list option \<Rightarrow> log_row list \<Rightarrow> csv_line list option" where
  "write_log_to_csv log_csv entries =
     (case log_csv of
        None \<Rightarrow> Some (HeaderLine # map DataLine entries)
      | Some file_lines \<Rightarrow> Some (file_lines @ map DataLine entries))"

text \<open>
  What a run leaves: the CSV file, the effects in order, and the summaries when the run
  reached its end (\<open>None\<close> when an exception reached the handler of
  \<^verbatim>\<open>stitch_images\<close>, which only logs it).
\<close>

record 'img run =
  log_csv_after :: "csv_line list option"
  effects :: "'img event list"
  report :: "(string \<rightharpoonup> summary) option"

definition initial_state :: "('k \<rightharpoonup> int) \<Rightarrow> ('img, 'k) state" where
  "initial_state index =
     \<lparr>available_images = [], images = [], batch_log = [],
      checked_in_category = 0, duplicates_in_category = 0, processed_in_category = 0,
      stitched_in_category = 0, batch_number = 1, cat_summary = new_summary,
      category_summaries = Map.empty, processed_images = index,
      log_entries = [], trace = []\<rparr>"

definition stitch_images ::
  "('c, 'img, 'h, 'k) codec \<Rightarrow> 'c node \<Rightarrow> path \<Rightarrow> csv_line list option \<Rightarrow> int \<times> int \<Rightarrow> int \<times> int \<Rightarrow>
     'img run" where
  "stitch_images cd fs input_dir log_csv grid_size image_size =
     (case load_processed_images cd log_csv of
        None \<Rightarrow> \<lparr>log_csv_after = log_csv, effects = [], report = None\<rparr>
      | Some index \<Rightarrow>
          (case listdir fs input_dir of
             None \<Rightarrow> \<lparr>log_csv_after = log_csv, effects = [ListDir input_dir], report = None\<rparr>
           | Some names \<Rightarrow>
               (case process_categories cd fs input_dir grid_size image_size
                       (filter (\<lambda>category. isdir fs (input_dir @ [category])) names)
                       ((initial_state index)\<lparr>trace := [ListDir input_dir]\<rparr>) of
                  Inl t \<Rightarrow> \<lparr>log_csv_after = log_csv, effects = t, report = None\<rparr>
                | Inr s \<Rightarrow>
                    \<lparr>log_csv_after = write_log_to_csv log_csv (log_entries s),
                     effects = trace s @ [WriteLog (log_entries s)],
                     report = Some (category_summaries s)\<rparr>)))"

section \<open>Auxiliary definitions for the statements\<close>

text \<open>
  The effect of a completed batch on the variables: the events of saving and converting,
  the batch's log entries, the counters.
\<close>

definition render ::
  "int \<times> int \<Rightarrow> int \<times> int \<Rightarrow> string \<Rightarrow> string \<Rightarrow> ('img, 'k) state \<Rightarrow> ('img, 'k) state" where
  "render grid_size image_size category subcategory s2 =
     s2\<lparr>trace := trace s2 @
           [SavePNG (category, subcategory, batch_number s2) (stitch grid_size image_size (images s2)),
            ConvertDDS (category, subcategory, batch_number s2)],
        log_entries := log_entries s2 @ batch_log s2,
        cat_summary := (cat_summary s2)
          \<lparr>stitched_batches := stitched_batches (cat_summary s2) + 1\<rparr>,
        processed_in_category := processed_in_category s2 + int (length (images s2)),
        stitched_in_category := stitched_in_category s2 + 1,
        batch_number := batch_number s2 + 1\<rparr>"

text \<open>The stitched images saved by a sequence of effects, with their names.\<close>

fun saved :: "'img event list \<Rightarrow> (out_name \<times> 'img stitched) list" where
  "saved [] = []"
| "saved (SavePNG n st # evs) = (n, st) # saved evs"
| "saved (ListDir p # evs) = saved evs"
| "saved (OpenImage p # evs) = saved evs"
| "saved (ConvertDDS n # evs) = saved evs"
| "saved (WriteLog rows # evs) = saved evs"

text \<open>The writes to the CSV file made by a sequence of effects.\<close>

fun ledger_writes :: "'img event list \<Rightarrow> log_row list list" where
  "ledger_writes [] = []"
| "ledger_writes (WriteLog rows # evs) = rows # ledger_writes evs"
| "ledger_writes (ListDir p # evs) = ledger_writes evs"
| "ledger_writes (OpenImage p # evs) = ledger_writes evs"
| "ledger_writes (SavePNG n st # evs) = ledger_writes evs"
| "ledger_writes (ConvertDDS n # evs) = ledger_writes evs"

text \<open>The paths read by a sequence of effects.\<close>

fun paths_read :: "'img event list \<Rightarrow> path list" where
  "paths_read [] = []"
| "paths_read (ListDir p # evs) = p # paths_read evs"
| "paths_read (OpenImage p # evs) = p # paths_read evs"
| "paths_read (SavePNG n st # evs) = paths_read evs"
| "paths_read (ConvertDDS n # evs) = paths_read evs"
| "paths_read (WriteLog rows # evs) = paths_read evs"

fun row_name :: "log_row \<Rightarrow> out_name" where
  "row_name (category, subcategory, batch_no, perceptual_hash, filename) =
     (category, subcategory, batch_no)"


text \<open>
  Predicates for the proofs.  The effects are \<open>quiet\<close> when every saved image holds
  exactly a grid's worth of pictures and the CSV file has not been written; the state is
  \<open>log_consistent\<close> when, moreover, every log entry names a saved image and there are
  a grid's worth of entries for each saved image; the pool is \<open>pool_consistent\<close> when
  the batch log has one entry, with the current batch number, for each picture of the
  pool, and the pool is no larger than the grid.
\<close>

definition full_batches :: "int \<times> int \<Rightarrow> 'img event list \<Rightarrow> bool" where
  "full_batches grid_size evs =
     (\<forall>(n, st) \<in> set (saved evs). int (length (pastes st)) = capacity grid_size)"

definition quiet :: "int \<times> int \<Rightarrow> 'img event list \<Rightarrow> bool" where
  "quiet grid_size evs = (full_batches grid_size evs \<and> ledger_writes evs = [])"

definition log_consistent :: "int \<times> int \<Rightarrow> ('img, 'k) state \<Rightarrow> bool" where
  "log_consistent grid_size s =
     (quiet grid_size (trace s) \<and>
      (\<forall>row \<in> set (log_entries s). row_name row \<in> fst ` set (saved (trace s))) \<and>
      int (length (log_entries s)) = capacity grid_size * int (length (saved (trace s))))"

definition pool_consistent :: "int \<times> int \<Rightarrow> string \<Rightarrow> string \<Rightarrow> ('img, 'k) state \<Rightarrow> bool" where
  "pool_consistent grid_size category subcategory s =
     (length (batch_log s) = length (images s) \<and>
      (\<forall>row \<in> set (batch_log s). row_name row = (category, subcategory, batch_number s)) \<and>
      int (length (images s)) \<le> max 0 (capacity grid_size))"

section \<open>Example inputs\<close>

text \<open>
  An image library under which a picture and its hash are the file's content, and the
  content \<^verbatim>\<open>bad\<close> does not decode; a tree with one category that holds two
  files with the same content, a file that does not decode, a file that is no image and a
  subdirectory named \<^verbatim>\<open>main\<close>.
\<close>

definition example_codec :: "(string, string, string, string) codec" where
  "example_codec =
     \<lparr>load_image = (\<lambda>size c. if c = ''bad'' then None else Some (c, (0, 0, 0), 0, 0, c)),
      hash_str = (\<lambda>h. h), hash_key = (\<lambda>h. h), str_key = (\<lambda>s. s),
      save_ok = (\<lambda>n st. True)\<rparr>"

definition example_tree :: "string node" where
  "example_tree =
     Dir [(''Sketches'',
           Dir [(''a.png'', File ''A''), (''copy.png'', File ''A''), (''x.png'', File ''bad''),
                (''main'', Dir [(''inner.png'', File ''I'')]), (''notes.txt'', File ''T'')])]"


section \<open>Properties of the grouper\<close>



lemma group_mset:
  "mset (group_images_by_blackness_whiteness_and_color imgs) = mset imgs"
  by (simp add: group_images_by_blackness_whiteness_and_color_def)


section \<open>The steps of the orchestrator\<close>

lemma check_image_failed:
  assumes "open_image cd fs image_size (subcategory_path @ [filename]) = None"
  shows "check_image cd fs image_size category subcategory subcategory_path filename s =
           s\<lparr>checked_in_category := checked_in_category s + 1,
             trace := trace s @ [OpenImage (subcategory_path @ [filename])]\<rparr>"
  using assms by (simp add: check_image_def Let_def)

lemma check_image_duplicate:
  assumes "open_image cd fs image_size (subcategory_path @ [filename]) = Some (img, dc, w, b, h)"
    and "processed_images s (hash_key cd h) \<noteq> None"
  shows "check_image cd fs image_size category subcategory subcategory_path filename s =
           s\<lparr>checked_in_category := checked_in_category s + 1,
             trace := trace s @ [OpenImage (subcategory_path @ [filename])],
             duplicates_in_category := duplicates_in_category s + 1,
             cat_summary := (cat_summary s)
               \<lparr>duplicate_files := duplicate_files (cat_summary s) @ [filename]\<rparr>\<rparr>"
  using assms by (simp add: check_image_def Let_def)

lemma check_image_new:
  assumes "open_image cd fs image_size (subcategory_path @ [filename]) = Some (img, dc, w, b, h)"
    and "processed_images s (hash_key cd h) = None"
  shows "check_image cd fs image_size category subcategory subcategory_path filename s =
           s\<lparr>checked_in_category := checked_in_category s + 1,
             trace := trace s @ [OpenImage (subcategory_path @ [filename])],
             images := images s @ [(img, dc, w, b, filename)],
             batch_log := batch_log s @ [(category, subcategory, batch_number s, hash_str cd h, filename)],
             processed_images := (processed_images s)(hash_key cd h \<mapsto> batch_number s)\<rparr>"
  using assms by (simp add: check_image_def Let_def)

lemma check_image_cases:
  obtains (failed) "open_image cd fs image_size (subcategory_path @ [filename]) = None"
  | (duplicate) img dc w b h where
      "open_image cd fs image_size (subcategory_path @ [filename]) = Some (img, dc, w, b, h)"
      "processed_images s (hash_key cd h) \<noteq> None"
  | (new) img dc w b h where
      "open_image cd fs image_size (subcategory_path @ [filename]) = Some (img, dc, w, b, h)"
      "processed_images s (hash_key cd h) = None"
proof (cases "open_image cd fs image_size (subcategory_path @ [filename])")
  case None
  then show ?thesis by (rule failed)
next
  case (Some r)
  obtain img dc w b h where r: "r = (img, dc, w, b, h)"
    by (cases r) auto
  show ?thesis
  proof (cases "processed_images s (hash_key cd h) = None")
    case True
    with Some r show ?thesis by (intro new) auto
  next
    case False
    with Some r show ?thesis by (intro duplicate) auto
  qed
qed

lemma collect_Nil:
  "available_images s = [] \<Longrightarrow>
   collect cd fs grid_size image_size category subcategory subcategory_path s = s"
  by (simp add: collect.simps [of _ _ _ _ _ _ _ s])

lemma collect_full:
  "\<not> int (length (images s)) < capacity grid_size \<Longrightarrow>
   collect cd fs grid_size image_size category subcategory subcategory_path s = s"
  by (simp add: collect.simps [of _ _ _ _ _ _ _ s] split: list.splits)

lemma collect_Cons:
  "available_images s = filename # rest \<Longrightarrow> int (length (images s)) < capacity grid_size \<Longrightarrow>
   collect cd fs grid_size image_size category subcategory subcategory_path s =
   collect cd fs grid_size image_size category subcategory subcategory_path
     (check_image cd fs image_size category subcategory subcategory_path filename
        (s\<lparr>available_images := rest\<rparr>))"
  by (simp add: collect.simps [of _ _ _ _ _ _ _ s])

text \<open>A property kept by every step of the inner loop holds of its result.\<close>

lemma collect_invariant:
  assumes "P s"
    and "\<And>filename rest t. P t \<Longrightarrow> available_images t = filename # rest \<Longrightarrow>
        int (length (images t)) < capacity grid_size \<Longrightarrow>
        P (check_image cd fs image_size category subcategory subcategory_path filename
             (t\<lparr>available_images := rest\<rparr>))"
  shows "P (collect cd fs grid_size image_size category subcategory subcategory_path s)"
  using assms
proof (induction cd fs grid_size image_size category subcategory subcategory_path s
    rule: collect.induct)
  case (1 cd fs grid_size image_size category subcategory subcategory_path s)
  show ?case
  proof (cases "available_images s")
    case Nil
    with "1.prems"(1) show ?thesis by (simp add: collect_Nil)
  next
    case (Cons filename rest)
    show ?thesis
    proof (cases "int (length (images s)) < capacity grid_size")
      case True
      have "P (check_image cd fs image_size category subcategory subcategory_path filename
                 (s\<lparr>available_images := rest\<rparr>))"
        using "1.prems"(2) [OF "1.prems"(1) Cons True] .
      then have "P (collect cd fs grid_size image_size category subcategory subcategory_path
                 (check_image cd fs image_size category subcategory subcategory_path filename
                    (s\<lparr>available_images := rest\<rparr>)))"
        using "1.prems"(2) by (rule "1.IH" [OF Cons True])
      then show ?thesis
        by (simp add: collect_Cons [OF Cons True])
    next
      case False
      with "1.prems"(1) show ?thesis by (simp add: collect_full)
    qed
  qed
qed


lemma batches_unfold:
  "batches cd fs grid_size image_size category subcategory subcategory_path s =
     (if available_images s = [] then Inr s
      else
        let s1 = collect cd fs grid_size image_size category subcategory subcategory_path
                   (s\<lparr>batch_log := [], images := []\<rparr>)
        in if images s1 = [] then Inr s1
           else
             let s2 = s1\<lparr>images := group_images_by_blackness_whiteness_and_color (images s1)\<rparr>
             in if int (length (images s2)) < capacity grid_size then
                  batches cd fs grid_size image_size category subcategory subcategory_path s2
                else if save_ok cd (category, subcategory, batch_number s2)
                          (stitch grid_size image_size (images s2)) then
                  batches cd fs grid_size image_size category subcategory subcategory_path
                    (render grid_size image_size category subcategory s2)
                else Inl (trace s2))"
  by (subst batches.simps) (simp add: Let_def render_def)

text \<open>
  A proof rule for the outer loop: \<open>I\<close> holds at the head of the loop, \<open>P\<close> after the
  inner loop and after the sort, \<open>Q\<close> of the effects when saving fails.
\<close>

lemma batches_rule:
  assumes "I s"
    and "\<And>t. I t \<Longrightarrow> available_images t \<noteq> [] \<Longrightarrow>
           P (collect cd fs grid_size image_size category subcategory subcategory_path
                (t\<lparr>batch_log := [], images := []\<rparr>))"
    and "\<And>t. P t \<Longrightarrow> images t \<noteq> [] \<Longrightarrow>
           P (t\<lparr>images := group_images_by_blackness_whiteness_and_color (images t)\<rparr>)"
    and "\<And>t. P t \<Longrightarrow> images t \<noteq> [] \<Longrightarrow> int (length (images t)) < capacity grid_size \<Longrightarrow> I t"
    and "\<And>t. P t \<Longrightarrow> images t \<noteq> [] \<Longrightarrow> \<not> int (length (images t)) < capacity grid_size \<Longrightarrow>
           save_ok cd (category, subcategory, batch_number t) (stitch grid_size image_size (images t)) \<Longrightarrow>
           I (render grid_size image_size category subcategory t)"
    and "\<And>t. P t \<Longrightarrow> Q (trace t)"
  shows "case batches cd fs grid_size image_size category subcategory subcategory_path s of
           Inl tr \<Rightarrow> Q tr
         | Inr s' \<Rightarrow> (I s' \<and> available_images s' = []) \<or> (P s' \<and> images s' = [])"
  using assms
proof (induction cd fs grid_size image_size category subcategory subcategory_path s
    rule: batches.induct)
  case (1 cd fs grid_size image_size category subcategory subcategory_path s)
  note I = "1.prems"(1) and c = "1.prems"(2) and g = "1.prems"(3) and k = "1.prems"(4)
    and r = "1.prems"(5) and q = "1.prems"(6)
  let ?B = "batches cd fs grid_size image_size category subcategory subcategory_path"
  show ?case
  proof (cases "available_images s = []")
    case True
    with I show ?thesis by (subst batches_unfold) simp
  next
    case avail: False
    define s1 where "s1 = collect cd fs grid_size image_size category subcategory subcategory_path
                   (s\<lparr>batch_log := [], images := []\<rparr>)"
    have P1: "P s1" unfolding s1_def by (rule c [OF I avail])
    show ?thesis
    proof (cases "images s1 = []")
      case True
      with P1 avail show ?thesis
        by (subst batches_unfold) (simp add: s1_def [symmetric] Let_def)
    next
      case nonempty: False
      define s2 where "s2 = s1\<lparr>images := group_images_by_blackness_whiteness_and_color (images s1)\<rparr>"
      have P2: "P s2" unfolding s2_def by (rule g [OF P1 nonempty])
      have ne2: "images s2 \<noteq> []"
        using nonempty
        by (simp add: s2_def group_images_by_blackness_whiteness_and_color_def)
          (metis length_sort length_0_conv)
      show ?thesis
      proof (cases "int (length (images s2)) < capacity grid_size")
        case short: True
        have "case ?B s2 of Inl tr \<Rightarrow> Q tr
              | Inr s' \<Rightarrow> (I s' \<and> available_images s' = []) \<or> (P s' \<and> images s' = [])"
          by (rule "1.IH"(1) [OF avail s1_def nonempty s2_def short k [OF P2 ne2 short] c g k r q])
        then show ?thesis
          using avail nonempty short
          by (subst batches_unfold) (simp add: s1_def [symmetric] s2_def [symmetric] Let_def)
      next
        case full: False
        show ?thesis
        proof (cases "save_ok cd (category, subcategory, batch_number s2)
                          (stitch grid_size image_size (images s2))")
          case True
          have I3: "I (render grid_size image_size category subcategory s2)"
            by (rule r [OF P2 ne2 full True])
          have "case ?B (render grid_size image_size category subcategory s2) of
                  Inl tr \<Rightarrow> Q tr
                | Inr s' \<Rightarrow> (I s' \<and> available_images s' = []) \<or> (P s' \<and> images s' = [])"
            unfolding render_def
            by (rule "1.IH"(2) [OF avail s1_def nonempty s2_def full refl refl True
                  I3 [unfolded render_def] c g k r q])
          then show ?thesis
            using avail nonempty full True
            by (subst batches_unfold) (simp add: s1_def [symmetric] s2_def [symmetric] Let_def)
        next
          case False
          then show ?thesis
            using avail nonempty full q [OF P2]
            by (subst batches_unfold) (simp add: s1_def [symmetric] s2_def [symmetric] Let_def)
        qed
      qed
    qed
  qed
qed

lemma example_open [simp]:
  "open_image example_codec example_tree sz [''Sketches'', ''a.png''] = Some (''A'', (0, 0, 0), 0, 0, ''A'')"
  "open_image example_codec example_tree sz [''Sketches'', ''copy.png''] = Some (''A'', (0, 0, 0), 0, 0, ''A'')"
  "open_image example_codec example_tree sz [''Sketches'', ''x.png''] = None"
  by (simp_all add: open_image_def example_codec_def example_tree_def)

section \<open>Properties of the compositor\<close>

text \<open>
  Claim C7.  A batch of exactly \<open>rows * cols\<close> pictures is stitched into one canvas of
  size \<open>(cols * width, rows * height)\<close>, with one paste for each picture, and the
  picture at index \<open>i\<close> is pasted at the cell \<open>(i div cols, i mod cols)\<close>, that is
  at the pixel offset \<open>((i mod cols) * width, (i div cols) * height)\<close>.  The witness is
  the 2 by 2 grid with the pictures A, B, C, D: A is at cell (0,0), B at (0,1), C at (1,0)
  and D at (1,1).
\<close>
theorem stitch_placement:
  assumes "int (length imgs) = rows * cols" and "i < length imgs"
  shows "canvas_size (stitch (rows, cols) (w, h) imgs) = (cols * w, rows * h) \<and>
         length (pastes (stitch (rows, cols) (w, h) imgs)) = length imgs \<and>
         cell_of (rows, cols) (int i) = (int i div cols, int i mod cols) \<and>
         pastes (stitch (rows, cols) (w, h) imgs) ! i =
           (image_of (imgs ! i), (int i mod cols) * w, (int i div cols) * h)"
  using assms
  by (simp add: stitch_def py_take_def enumerate_py_def paste_of_def cell_of_def)

theorem stitch_placement_witness:
  "int (length [(''A'', (0,0,0), 0, 0, ''a.png''), (''B'', (0,0,0), 0, 0, ''b.png''),
                (''C'', (0,0,0), 0, 0, ''c.png''), (''D'', (0,0,0), 0, 0, ''d.png'')]) = 2 * 2 \<and>
   canvas_size (stitch (2, 2) (512, 512)
     [(''A'', (0,0,0), 0, 0, ''a.png''), (''B'', (0,0,0), 0, 0, ''b.png''),
      (''C'', (0,0,0), 0, 0, ''c.png''), (''D'', (0,0,0), 0, 0, ''d.png'')]) = (1024, 1024) \<and>
   cell_of (2, 2) 0 = (0, 0) \<and> cell_of (2, 2) 1 = (0, 1) \<and>
   cell_of (2, 2) 2 = (1, 0) \<and> cell_of (2, 2) 3 = (1, 1) \<and>
   pastes (stitch (2, 2) (512, 512)
     [(''A'', (0,0,0), 0, 0, ''a.png''), (''B'', (0,0,0), 0, 0, ''b.png''),
      (''C'', (0,0,0), 0, 0, ''c.png''), (''D'', (0,0,0), 0, 0, ''d.png'')]) =
     [(''A'', 0, 0), (''B'', 512, 0), (''C'', 0, 512), (''D'', 512, 512)]"
proof -
  let ?imgs = "[(''A'', (0,0,0), 0, 0, ''a.png''), (''B'', (0,0,0), 0, 0, ''b.png''),
                (''C'', (0,0,0), 0, 0, ''c.png''), (''D'', (0::real,0::real,0::real), 0::real, 0::real, ''d.png'')]"
  have len: "int (length ?imgs) = 2 * 2" by simp
  have p0: "pastes (stitch (2, 2) (512, 512) ?imgs) ! 0 = (''A'', 0, 0)"
    using stitch_placement [OF len, of 0 512 512] by simp
  have p1: "pastes (stitch (2, 2) (512, 512) ?imgs) ! 1 = (''B'', 512, 0)"
    using stitch_placement [OF len, of 1 512 512] by simp
  have p2: "pastes (stitch (2, 2) (512, 512) ?imgs) ! 2 = (''C'', 0, 512)"
    using stitch_placement [OF len, of 2 512 512] by simp
  have p3: "pastes (stitch (2, 2) (512, 512) ?imgs) ! 3 = (''D'', 512, 512)"
    using stitch_placement [OF len, of 3 512 512] by simp
  have n: "length (pastes (stitch (2, 2) (512, 512) ?imgs)) = 4"
    using stitch_placement [OF len, of 0 512 512] by simp
  have c: "canvas_size (stitch (2, 2) (512, 512) ?imgs) = (1024, 1024)"
    using stitch_placement [OF len, of 0 512 512] by simp
  have cells: "cell_of (2, 2) 0 = (0, 0) \<and> cell_of (2, 2) 1 = (0, 1) \<and>
   cell_of (2, 2) 2 = (1, 0) \<and> cell_of (2, 2) 3 = (1, 1)"
    by (simp add: cell_of_def)
  have "pastes (stitch (2, 2) (512, 512) ?imgs) =
     [(''A'', 0, 0), (''B'', 512, 0), (''C'', 0, 512), (''D'', 512, 512)]"
    by (rule nth_equalityI) (use n p0 p1 p2 p3 in \<open>auto simp: less_Suc_eq numeral_eq_Suc\<close>)
  with len c cells show ?thesis by simp
qed

section \<open>Claims about the grouper\<close>



text \<open>
  Claim C4, as stated, fails for two pools with the same records in different arrival
  orders when two records tie on the three keys.
\<close>
theorem grouper_arrival_order_counterexample:
  "mset [(1::nat, (0::real,0::real,0::real), 0::real, 0::real, ''a.png''), (2, (0,0,0), 0, 0, ''b.png'')] =
   mset [(2, (0,0,0), 0, 0, ''b.png''), (1, (0,0,0), 0, 0, ''a.png'')] \<and>
   group_images_by_blackness_whiteness_and_color
     [(1::nat, (0,0,0), 0, 0, ''a.png''), (2, (0,0,0), 0, 0, ''b.png'')] \<noteq>
   group_images_by_blackness_whiteness_and_color
     [(2, (0,0,0), 0, 0, ''b.png''), (1, (0,0,0), 0, 0, ''a.png'')]"
  by (simp add: group_images_by_blackness_whiteness_and_color_def sort_key_of_def)

text \<open>
  Claim C4, amended.  For two pools with the same multiset of records in which no two
  different records have the same key (blackness, whiteness, gray distance), the grouper
  returns the same list, and the same slice of any capacity, whatever the arrival orders.
\<close>

theorem grouper_deterministic:
  assumes "mset xs = mset ys" and "inj_on sort_key_of (set xs)"
  shows "group_images_by_blackness_whiteness_and_color xs =
           group_images_by_blackness_whiteness_and_color ys \<and>
         py_take cap (group_images_by_blackness_whiteness_and_color xs) =
           py_take cap (group_images_by_blackness_whiteness_and_color ys)"
proof -
  have "sort_key sort_key_of xs = sort_key sort_key_of ys"
    using assms by (intro sort_key_inj_key_eq) simp_all
  then show ?thesis
    by (simp add: group_images_by_blackness_whiteness_and_color_def)
qed

theorem grouper_deterministic_witness:
  "mset [(1::nat, (0::real,0::real,0::real), 0::real, 1/2::real, ''a.png''), (2, (0,0,0), 0, 1/4, ''b.png'')] =
   mset [(2, (0,0,0), 0, 1/4, ''b.png''), (1, (0,0,0), 0, 1/2, ''a.png'')] \<and>
   inj_on sort_key_of (set [(1::nat, (0,0,0), 0, 1/2, ''a.png''), (2, (0,0,0), 0, 1/4, ''b.png'')]) \<and>
   group_images_by_blackness_whiteness_and_color
     [(1::nat, (0,0,0), 0, 1/2, ''a.png''), (2, (0,0,0), 0, 1/4, ''b.png'')] =
   group_images_by_blackness_whiteness_and_color
     [(2, (0,0,0), 0, 1/4, ''b.png''), (1, (0,0,0), 0, 1/2, ''a.png'')]"
proof -
  let ?xs = "[(1::nat, (0::real,0::real,0::real), 0::real, 1/2::real, ''a.png''), (2, (0,0,0), 0, 1/4, ''b.png'')]"
  let ?ys = "[(2::nat, (0::real,0::real,0::real), 0::real, 1/4::real, ''b.png''), (1, (0,0,0), 0, 1/2, ''a.png'')]"
  have m: "mset ?xs = mset ?ys" by simp
  have i: "inj_on sort_key_of (set ?xs)" by (simp add: sort_key_of_def)
  from grouper_deterministic [OF m i] m i show ?thesis by blast
qed

section \<open>Claims about the orchestrator\<close>

text \<open>
  Claim C8.  When opening, resizing or analysing a file raises, the failure is absorbed:
  the only changes are the checked counter, incremented, and the attempt to open the
  file; the pool, the processed counter and the duplicate counter are unchanged, and the
  inner loop goes on with the remaining file names, the failed one removed.
\<close>

theorem failed_image_absorbed:
  assumes "open_image cd fs image_size (subcategory_path @ [filename]) = None"
  shows "check_image cd fs image_size category subcategory subcategory_path filename s =
           s\<lparr>checked_in_category := checked_in_category s + 1,
             trace := trace s @ [OpenImage (subcategory_path @ [filename])]\<rparr> \<and>
         images (check_image cd fs image_size category subcategory subcategory_path filename s)
           = images s \<and>
         checked_in_category (check_image cd fs image_size category subcategory subcategory_path filename s)
           = checked_in_category s + 1 \<and>
         processed_in_category (check_image cd fs image_size category subcategory subcategory_path filename s)
           = processed_in_category s \<and>
         duplicates_in_category (check_image cd fs image_size category subcategory subcategory_path filename s)
           = duplicates_in_category s \<and>
         (int (length (images s)) < capacity grid_size \<longrightarrow>
            collect cd fs grid_size image_size category subcategory subcategory_path
              (s\<lparr>available_images := filename # rest\<rparr>) =
            collect cd fs grid_size image_size category subcategory subcategory_path
              (s\<lparr>available_images := rest,
                 checked_in_category := checked_in_category s + 1,
                 trace := trace s @ [OpenImage (subcategory_path @ [filename])]\<rparr>))"
proof -
  have step: "check_image cd fs image_size category subcategory subcategory_path filename t =
           t\<lparr>checked_in_category := checked_in_category t + 1,
             trace := trace t @ [OpenImage (subcategory_path @ [filename])]\<rparr>" for t
    using assms by (rule check_image_failed)
  have loop: "collect cd fs grid_size image_size category subcategory subcategory_path
              (s\<lparr>available_images := filename # rest\<rparr>) =
            collect cd fs grid_size image_size category subcategory subcategory_path
              (s\<lparr>available_images := rest,
                 checked_in_category := checked_in_category s + 1,
                 trace := trace s @ [OpenImage (subcategory_path @ [filename])]\<rparr>)"
    if "int (length (images s)) < capacity grid_size"
    using that
    by (subst collect_Cons [of _ filename rest]) (simp_all add: step)
  show ?thesis
    using loop by (simp add: step)
qed

theorem failed_image_absorbed_witness:
  "open_image example_codec example_tree (512, 512) ([''Sketches''] @ [''x.png'']) = None \<and>
   checked_in_category (check_image example_codec example_tree (512, 512) ''Sketches'' ''main''
      [''Sketches''] ''x.png'' (initial_state Map.empty)) = 1 \<and>
   processed_in_category (check_image example_codec example_tree (512, 512) ''Sketches'' ''main''
      [''Sketches''] ''x.png'' (initial_state Map.empty)) = 0 \<and>
   duplicates_in_category (check_image example_codec example_tree (512, 512) ''Sketches'' ''main''
      [''Sketches''] ''x.png'' (initial_state Map.empty)) = 0 \<and>
   images (check_image example_codec example_tree (512, 512) ''Sketches'' ''main''
      [''Sketches''] ''x.png'' (initial_state Map.empty)) = []"
proof -
  have h: "open_image example_codec example_tree (512, 512) ([''Sketches''] @ [''x.png'']) = None"
    by simp
  show ?thesis
    using h failed_image_absorbed [OF h, where category = "''Sketches''" and subcategory = "''main''"
        and s = "initial_state Map.empty" and grid_size = "(1, 1)" and rest = "[]"]
    by (simp add: initial_state_def)
qed

lemma check_image_index_mono:
  "processed_images s k \<noteq> None \<Longrightarrow>
   processed_images (check_image cd fs image_size category subcategory subcategory_path filename s) k \<noteq> None"
  by (rule check_image_cases [where cd = cd and fs = fs and image_size = image_size
        and subcategory_path = subcategory_path and filename = filename and s = s])
     (simp_all add: check_image_failed check_image_duplicate check_image_new)







section \<open>The log entries and the saved images\<close>

lemma saved_append [simp]: "saved (xs @ ys) = saved xs @ saved ys"
  by (induction xs rule: saved.induct) simp_all

lemma ledger_writes_append [simp]: "ledger_writes (xs @ ys) = ledger_writes xs @ ledger_writes ys"
  by (induction xs rule: ledger_writes.induct) simp_all

lemma paths_read_append [simp]: "paths_read (xs @ ys) = paths_read xs @ paths_read ys"
  by (induction xs rule: paths_read.induct) simp_all

lemma check_image_frame:
  "log_entries (check_image cd fs image_size category subcategory subcategory_path filename s) = log_entries s"
  "batch_number (check_image cd fs image_size category subcategory subcategory_path filename s) = batch_number s"
  "processed_in_category (check_image cd fs image_size category subcategory subcategory_path filename s) = processed_in_category s"
  "stitched_in_category (check_image cd fs image_size category subcategory subcategory_path filename s) = stitched_in_category s"
  "category_summaries (check_image cd fs image_size category subcategory subcategory_path filename s) = category_summaries s"
  "saved (trace (check_image cd fs image_size category subcategory subcategory_path filename s)) = saved (trace s)"
  "ledger_writes (trace (check_image cd fs image_size category subcategory subcategory_path filename s)) = ledger_writes (trace s)"
  by (simp_all add: check_image_def Let_def split: option.splits)

lemma collect_frame:
  "log_entries (collect cd fs grid_size image_size category subcategory subcategory_path s) = log_entries s \<and>
   batch_number (collect cd fs grid_size image_size category subcategory subcategory_path s) = batch_number s \<and>
   processed_in_category (collect cd fs grid_size image_size category subcategory subcategory_path s) = processed_in_category s \<and>
   stitched_in_category (collect cd fs grid_size image_size category subcategory subcategory_path s) = stitched_in_category s \<and>
   category_summaries (collect cd fs grid_size image_size category subcategory subcategory_path s) = category_summaries s \<and>
   saved (trace (collect cd fs grid_size image_size category subcategory subcategory_path s)) = saved (trace s) \<and>
   ledger_writes (trace (collect cd fs grid_size image_size category subcategory subcategory_path s)) = ledger_writes (trace s)"
  by (rule collect_invariant [where P = "\<lambda>t. log_entries t = log_entries s \<and>
        batch_number t = batch_number s \<and> processed_in_category t = processed_in_category s \<and>
        stitched_in_category t = stitched_in_category s \<and> category_summaries t = category_summaries s \<and>
        saved (trace t) = saved (trace s) \<and> ledger_writes (trace t) = ledger_writes (trace s)"])
    (simp_all add: check_image_frame)

lemma check_image_pool:
  assumes "pool_consistent grid_size category subcategory s"
    and "int (length (images s)) < capacity grid_size"
  shows "pool_consistent grid_size category subcategory
           (check_image cd fs image_size category subcategory subcategory_path filename s)"
  using assms
  by (rule_tac check_image_cases [where cd = cd and fs = fs and image_size = image_size
        and subcategory_path = subcategory_path and filename = filename and s = s])
    (auto simp: check_image_failed check_image_duplicate check_image_new pool_consistent_def)

lemma collect_pool:
  assumes "pool_consistent grid_size category subcategory (s :: ('a, 'b) state)"
  shows "pool_consistent grid_size category subcategory
           (collect cd fs grid_size image_size category subcategory subcategory_path s)"
proof (rule collect_invariant [where P = "pool_consistent grid_size category subcategory"])
  show "pool_consistent grid_size category subcategory s" by fact
next
  fix filename rest and t :: "('a, 'b) state"
  assume t: "pool_consistent grid_size category subcategory t"
    and short: "int (length (images t)) < capacity grid_size"
  from t have "pool_consistent grid_size category subcategory (t\<lparr>available_images := rest\<rparr>)"
    by (simp add: pool_consistent_def)
  then show "pool_consistent grid_size category subcategory
      (check_image cd fs image_size category subcategory subcategory_path filename
         (t\<lparr>available_images := rest\<rparr>))"
    using short by (intro check_image_pool) simp_all
qed

lemma pool_consistent_reset:
  "pool_consistent grid_size category subcategory (s\<lparr>batch_log := [], images := []\<rparr>)"
  by (simp add: pool_consistent_def)

lemma length_pastes_stitch:
  "int (length imgs) = capacity grid_size \<Longrightarrow>
   int (length (pastes (stitch grid_size image_size imgs))) = capacity grid_size"
  by (simp add: stitch_def py_take_def enumerate_py_def capacity_def)

lemma full_pool:
  assumes "pool_consistent grid_size category subcategory s" and "images s \<noteq> []"
    and "\<not> int (length (images s)) < capacity grid_size"
  shows "int (length (images s)) = capacity grid_size"
proof -
  have "0 < length (images s)" using assms(2) by simp
  then show ?thesis using assms(1,3) by (simp add: pool_consistent_def max_def split: if_splits)
qed


lemma log_consistent_cong:
  assumes "log_consistent grid_size s"
    and "log_entries t = log_entries s" and "saved (trace t) = saved (trace s)"
    and "ledger_writes (trace t) = ledger_writes (trace s)"
  shows "log_consistent grid_size t"
  using assms by (simp add: log_consistent_def quiet_def full_batches_def)

lemma render_consistent:
  assumes l: "log_consistent grid_size s" and p: "pool_consistent grid_size category subcategory s"
    and ne: "images s \<noteq> []" and full: "\<not> int (length (images s)) < capacity grid_size"
  shows "log_consistent grid_size (render grid_size image_size category subcategory s)"
proof -
  have len: "int (length (images s)) = capacity grid_size"
    by (rule full_pool [OF p ne full])
  have blen: "int (length (batch_log s)) = capacity grid_size"
    using p len by (simp add: pool_consistent_def)
  have names: "\<forall>row \<in> set (batch_log s). row_name row = (category, subcategory, batch_number s)"
    using p by (simp add: pool_consistent_def)
  show ?thesis
    using l len blen names length_pastes_stitch [OF len, of image_size]
    by (auto simp: log_consistent_def quiet_def full_batches_def render_def distrib_left)
qed

lemma batches_consistent:
  assumes "log_consistent grid_size (s :: ('img, 'k) state)"
  shows "case batches cd fs grid_size image_size category subcategory subcategory_path s of
           Inl tr \<Rightarrow> quiet grid_size tr | Inr s' \<Rightarrow> log_consistent grid_size s'"
proof -
  let ?P = "\<lambda>t :: ('img, 'k) state. log_consistent grid_size t \<and>
              pool_consistent grid_size category subcategory t"
  have "case batches cd fs grid_size image_size category subcategory subcategory_path s of
           Inl tr \<Rightarrow> quiet grid_size tr
         | Inr s' \<Rightarrow> (log_consistent grid_size s' \<and> available_images s' = []) \<or>
                     (?P s' \<and> images s' = [])"
  proof (rule batches_rule [where I = "log_consistent grid_size" and P = ?P
        and Q = "quiet grid_size"])
    show "log_consistent grid_size s" by fact
  next
    fix t :: "('img, 'k) state"
    assume t: "log_consistent grid_size t"
    let ?r = "t\<lparr>batch_log := [], images := []\<rparr>"
    let ?c = "collect cd fs grid_size image_size category subcategory subcategory_path ?r"
    have "log_consistent grid_size ?c"
      using collect_frame [of cd fs grid_size image_size category subcategory subcategory_path ?r]
      by (intro log_consistent_cong [OF t]) simp_all
    moreover have "pool_consistent grid_size category subcategory ?c"
      by (intro collect_pool pool_consistent_reset)
    ultimately show "?P ?c" by simp
  next
    fix t :: "('img, 'k) state"
    assume "?P t"
    then show "?P (t\<lparr>images := group_images_by_blackness_whiteness_and_color (images t)\<rparr>)"
      by (auto simp: pool_consistent_def group_images_by_blackness_whiteness_and_color_def
          intro: log_consistent_cong)
  next
    fix t :: "('img, 'k) state"
    assume "?P t" "images t \<noteq> []" "\<not> int (length (images t)) < capacity grid_size"
    then show "log_consistent grid_size (render grid_size image_size category subcategory t)"
      by (intro render_consistent) simp_all
  next
    fix t :: "('img, 'k) state"
    assume "?P t"
    then show "quiet grid_size (trace t)" by (simp add: log_consistent_def)
  qed simp
  then show ?thesis by (auto split: sum.splits)
qed

lemma process_subcategory_consistent:
  assumes "log_consistent grid_size (s :: ('img, 'k) state)"
  shows "case process_subcategory cd fs grid_size image_size category category_path subcategory s of
           Inl tr \<Rightarrow> quiet grid_size tr | Inr s' \<Rightarrow> log_consistent grid_size s'"
proof -
  let ?sp = "subcategory_path_of category_path subcategory"
  let ?s0 = "s\<lparr>trace := trace s @ [ListDir ?sp]\<rparr>"
  have s0: "log_consistent grid_size ?s0"
    by (rule log_consistent_cong [OF assms]) simp_all
  show ?thesis
  proof (cases "list_images fs ?sp")
    case None
    then show ?thesis
      using s0 by (simp add: process_subcategory_def Let_def log_consistent_def)
  next
    case (Some available)
    show ?thesis
    proof (cases "available = []")
      case True
      have "log_consistent grid_size (?s0\<lparr>available_images := available\<rparr>)"
        by (rule log_consistent_cong [OF s0]) simp_all
      then show ?thesis
        using Some True by (simp add: process_subcategory_def Let_def)
    next
      case False
      let ?s1 = "?s0\<lparr>available_images := available,
                           cat_summary := (cat_summary ?s0)
                             \<lparr>images_in_folder :=
                                images_in_folder (cat_summary ?s0) + int (length available)\<rparr>,
                           processed_in_category := 0,
                           checked_in_category := 0,
                           duplicates_in_category := 0,
                           stitched_in_category := 0,
                           batch_number := 1\<rparr>"
      have s1: "log_consistent grid_size ?s1"
        by (rule log_consistent_cong [OF s0]) simp_all
      show ?thesis
        using batches_consistent [OF s1, of cd fs image_size category subcategory ?sp] Some False
        by (auto simp: process_subcategory_def Let_def split: sum.splits
            intro: log_consistent_cong)
    qed
  qed
qed

lemma process_subcategories_consistent:
  assumes "log_consistent grid_size (s :: ('img, 'k) state)"
  shows "case process_subcategories cd fs grid_size image_size category category_path subcategories s of
           Inl tr \<Rightarrow> quiet grid_size tr | Inr s' \<Rightarrow> log_consistent grid_size s'"
  using assms
proof (induction subcategories arbitrary: s)
  case Nil
  then show ?case by simp
next
  case (Cons subcategory rest)
  note step = process_subcategory_consistent
    [OF Cons.prems, of cd fs image_size category category_path subcategory]
  show ?case
  proof (cases "process_subcategory cd fs grid_size image_size category category_path subcategory s")
    case (Inl tr)
    with step show ?thesis by simp
  next
    case (Inr s1)
    with step have "log_consistent grid_size s1" by simp
    from Cons.IH [OF this] Inr show ?thesis by simp
  qed
qed

lemma process_category_consistent:
  assumes "log_consistent grid_size (s :: ('img, 'k) state)"
  shows "case process_category cd fs input_dir grid_size image_size category s of
           Inl tr \<Rightarrow> quiet grid_size tr | Inr s' \<Rightarrow> log_consistent grid_size s'"
proof -
  let ?cp = "input_dir @ [category]"
  let ?s0 = "s\<lparr>trace := trace s @ [ListDir ?cp]\<rparr>"
  have s0: "log_consistent grid_size ?s0"
    by (rule log_consistent_cong [OF assms]) simp_all
  have s1: "log_consistent grid_size (?s0\<lparr>cat_summary := new_summary\<rparr>)"
    by (rule log_consistent_cong [OF s0]) simp_all
  show ?thesis
  proof (cases "isdir fs ?cp")
    case False
    with assms show ?thesis by (simp add: process_category_def)
  next
    case True
    show ?thesis
    proof (cases "listdir fs ?cp")
      case None
      with True s0 show ?thesis
        by (simp add: process_category_def Let_def log_consistent_def)
    next
      case (Some names)
      let ?r = "process_subcategories cd fs grid_size image_size category ?cp
                  (subcategories_of fs ?cp names) (?s0\<lparr>cat_summary := new_summary\<rparr>)"
      note step = process_subcategories_consistent
        [OF s1, of cd fs image_size category ?cp "subcategories_of fs ?cp names"]
      show ?thesis
      proof (cases ?r)
        case (Inl tr)
        with step True Some show ?thesis
          by (simp add: process_category_def Let_def)
      next
        case (Inr s2)
        with step have "log_consistent grid_size s2" by simp
        then have "log_consistent grid_size
            (s2\<lparr>category_summaries := (category_summaries s2)(category \<mapsto> cat_summary s2)\<rparr>)"
          by (rule log_consistent_cong) simp_all
        with Inr True Some show ?thesis
          by (simp add: process_category_def Let_def)
      qed
    qed
  qed
qed

lemma process_categories_consistent:
  assumes "log_consistent grid_size (s :: ('img, 'k) state)"
  shows "case process_categories cd fs input_dir grid_size image_size categories s of
           Inl tr \<Rightarrow> quiet grid_size tr | Inr s' \<Rightarrow> log_consistent grid_size s'"
  using assms
proof (induction categories arbitrary: s)
  case Nil
  then show ?case by simp
next
  case (Cons category rest)
  note step = process_category_consistent
    [OF Cons.prems, of cd fs input_dir image_size category]
  show ?case
  proof (cases "process_category cd fs input_dir grid_size image_size category s")
    case (Inl tr)
    with step show ?thesis by simp
  next
    case (Inr s1)
    with step have "log_consistent grid_size s1" by simp
    from Cons.IH [OF this] Inr show ?thesis by simp
  qed
qed

lemma initial_consistent:
  "log_consistent grid_size ((initial_state index)\<lparr>trace := [ListDir input_dir]\<rparr>)"
  by (simp add: log_consistent_def quiet_def full_batches_def initial_state_def)


lemma run_consistent:
  "case report (stitch_images (cd :: ('c, 'img, 'h, 'k) codec) fs input_dir log_csv grid_size image_size) of
     None \<Rightarrow>
       quiet grid_size (effects (stitch_images cd fs input_dir log_csv grid_size image_size)) \<and>
       log_csv_after (stitch_images cd fs input_dir log_csv grid_size image_size) = log_csv
   | Some rep \<Rightarrow>
       (\<exists>s' :: ('img, 'k) state. log_consistent grid_size s' \<and>
          effects (stitch_images cd fs input_dir log_csv grid_size image_size)
            = trace s' @ [WriteLog (log_entries s')] \<and>
          log_csv_after (stitch_images cd fs input_dir log_csv grid_size image_size)
            = write_log_to_csv log_csv (log_entries s'))"
  (is "case report ?r of None \<Rightarrow> ?A | Some rep \<Rightarrow> ?B")
proof (cases "load_processed_images cd log_csv")
  case None
  then show ?thesis
    by (simp add: stitch_images_def quiet_def full_batches_def)
next
  case (Some index)
  show ?thesis
  proof (cases "listdir fs input_dir")
    case None
    with Some show ?thesis
      by (simp add: stitch_images_def quiet_def full_batches_def)
  next
    case names: (Some names)
    let ?cats = "filter (\<lambda>category. isdir fs (input_dir @ [category])) names"
    let ?s0 = "(initial_state index)\<lparr>trace := [ListDir input_dir]\<rparr> :: ('img, 'k) state"
    have "log_consistent grid_size ?s0" by (rule initial_consistent)
    note step = process_categories_consistent
      [OF this, where cd = cd and fs = fs and input_dir = input_dir
         and image_size = image_size and categories = ?cats]
    show ?thesis
    proof (cases "process_categories cd fs input_dir grid_size image_size ?cats ?s0")
      case (Inl tr)
      with step Some names show ?thesis
        by (simp add: stitch_images_def)
    next
      case (Inr s')
      with step have "log_consistent grid_size s'" by simp
      with Inr Some names show ?thesis
        by (simp add: stitch_images_def) blast
    qed
  qed
qed


lemmas eval_simps = stitch_images_def load_processed_images_def listdir_def isdir_def isfile_def
  initial_state_def process_category_def subcategories_of_def new_summary_def
  process_subcategory_def subcategory_path_of_def list_images_def
  is_image_name_def endswith_def lower_char_def batches.simps collect.simps
  check_image_def open_image_def capacity_def
  group_images_by_blackness_whiteness_and_color_def sort_key_of_def
  stitch_def py_take_def enumerate_py_def paste_of_def cell_of_def write_log_to_csv_def Let_def
  example_codec_def


section \<open>The ledger file\<close>




section \<open>The summaries\<close>

lemma example_tree_run:
  "stitch_images example_codec example_tree [] None (1, 1) (512, 512) =
     \<lparr>log_csv_after =
        Some [HeaderLine, DataLine (''Sketches'', ''main'', 1, ''A'', ''a.png'')],
      effects =
        [ListDir [], ListDir [''Sketches''], ListDir [''Sketches''],
         OpenImage [''Sketches'', ''a.png''],
         SavePNG (''Sketches'', ''main'', 1) \<lparr>canvas_size = (512, 512), pastes = [(''A'', 0, 0)]\<rparr>,
         ConvertDDS (''Sketches'', ''main'', 1),
         OpenImage [''Sketches'', ''copy.png''],
         OpenImage [''Sketches'', ''x.png''],
         WriteLog [(''Sketches'', ''main'', 1, ''A'', ''a.png'')]],
      report =
        Some [''Sketches'' \<mapsto>
           \<lparr>images_in_folder = 3, checked = 3, duplicates_found = 1, processed = 1,
            stitched_batches = 1, duplicate_files = [''copy.png''],
            subcategory_summaries =
              [''main'' \<mapsto>
                 \<lparr>sub_images_in_folder = 0, sub_checked = 3, sub_duplicates_found = 1,
                  sub_processed = 1, sub_stitched_batches = 1\<rparr>]\<rparr>]\<rparr>"
  by (simp add: eval_simps example_tree_def)

lemma collect_short_exhausts:
  "int (length (images (collect cd fs grid_size image_size category subcategory subcategory_path s)))
     < capacity grid_size \<Longrightarrow>
   available_images (collect cd fs grid_size image_size category subcategory subcategory_path s) = []"
proof (induction cd fs grid_size image_size category subcategory subcategory_path s
    rule: collect.induct)
  case (1 cd fs grid_size image_size category subcategory subcategory_path s)
  show ?case
  proof (cases "available_images s")
    case Nil
    then show ?thesis by (simp add: collect_Nil)
  next
    case (Cons filename rest)
    show ?thesis
    proof (cases "int (length (images s)) < capacity grid_size")
      case True
      from "1.IH" [OF Cons True] "1.prems" show ?thesis
        by (simp add: collect_Cons [OF Cons True])
    next
      case False
      with "1.prems" show ?thesis by (simp add: collect_full)
    qed
  qed
qed

lemma batches_exhausts:
  assumes "0 < capacity grid_size"
    and "batches cd fs grid_size image_size category subcategory subcategory_path s
           = Inr (s' :: ('img, 'k) state)"
  shows "available_images s' = []"
proof -
  let ?P = "\<lambda>t :: ('img, 'k) state. int (length (images t)) < capacity grid_size \<longrightarrow> available_images t = []"
  have "case batches cd fs grid_size image_size category subcategory subcategory_path s of
          Inl tr \<Rightarrow> True
        | Inr s' \<Rightarrow> (True \<and> available_images s' = []) \<or> (?P s' \<and> images s' = [])"
    by (rule batches_rule [where I = "\<lambda>t. True" and P = ?P and Q = "\<lambda>tr. True"])
      (simp_all add: collect_short_exhausts group_images_by_blackness_whiteness_and_color_def)
  with assms show ?thesis by auto
qed

lemma process_subcategory_reports_none_left:
  assumes "0 < capacity grid_size"
    and "process_subcategory cd fs grid_size image_size category category_path subcategory s = Inr s'"
    and "list_images fs (subcategory_path_of category_path subcategory) = Some available"
    and "available \<noteq> []"
  shows "\<exists>sub. subcategory_summaries (cat_summary s') subcategory = Some sub \<and>
           sub_images_in_folder sub = 0"
  using assms
  by (auto simp: process_subcategory_def Let_def split: sum.splits
      dest!: batches_exhausts [OF assms(1)])

text \<open>
  Claim C9.  The subcategory's summary takes its images-in-folder entry from
  \<^verbatim>\<open>len(available_images)\<close> after the loop over the batches, when the list
  has been emptied by \<^verbatim>\<open>pop(0)\<close>: for a grid with at least one cell the entry
  is 0 whatever the directory holds (\<open>process_subcategory_reports_none_left\<close>).  In
  the run below the directory lists three image files, the category's counter, which is
  set at discovery time, is 3, and the subcategory's entry is 0.
\<close>

theorem subcategory_images_in_folder_is_zero:
  "list_images example_tree (subcategory_path_of [''Sketches''] ''main'')
     = Some [''a.png'', ''copy.png'', ''x.png''] \<and>
   report (stitch_images example_codec example_tree [] None (1, 1) (512, 512)) =
     Some [''Sketches'' \<mapsto>
           \<lparr>images_in_folder = 3, checked = 3, duplicates_found = 1, processed = 1,
            stitched_batches = 1, duplicate_files = [''copy.png''],
            subcategory_summaries =
              [''main'' \<mapsto>
                 \<lparr>sub_images_in_folder = 0, sub_checked = 3, sub_duplicates_found = 1,
                  sub_processed = 1, sub_stitched_batches = 1\<rparr>]\<rparr>]"
  by (simp add: example_tree_run)
    (simp add: list_images_def subcategory_path_of_def listdir_def isfile_def example_tree_def
      is_image_name_def endswith_def lower_char_def)

section \<open>Complete batches\<close>

lemma run_full_batches:
  "full_batches grid_size
     (effects (stitch_images (cd :: ('c, 'img, 'h, 'k) codec) fs input_dir log_csv grid_size image_size))"
proof (cases "report (stitch_images cd fs input_dir log_csv grid_size image_size)")
  case None
  with run_consistent [where cd = cd and fs = fs and input_dir = input_dir and log_csv = log_csv
      and grid_size = grid_size and image_size = image_size]
  show ?thesis by (simp add: quiet_def)
next
  case (Some rep)
  with run_consistent [where cd = cd and fs = fs and input_dir = input_dir and log_csv = log_csv
      and grid_size = grid_size and image_size = image_size]
  obtain s' :: "('img, 'k) state" where "log_consistent grid_size s'"
    and "effects (stitch_images cd fs input_dir log_csv grid_size image_size)
            = trace s' @ [WriteLog (log_entries s')]"
    by auto
  then show ?thesis
    by (simp add: log_consistent_def quiet_def full_batches_def)
qed

lemma run_written_rows_saved:
  "\<forall>rows \<in> set (ledger_writes
        (effects (stitch_images (cd :: ('c, 'img, 'h, 'k) codec) fs input_dir log_csv grid_size image_size))).
     \<forall>row \<in> set rows. row_name row \<in> fst ` set (saved
        (effects (stitch_images cd fs input_dir log_csv grid_size image_size)))"
proof (cases "report (stitch_images cd fs input_dir log_csv grid_size image_size)")
  case None
  with run_consistent [where cd = cd and fs = fs and input_dir = input_dir and log_csv = log_csv
      and grid_size = grid_size and image_size = image_size]
  show ?thesis by (simp add: quiet_def)
next
  case (Some rep)
  with run_consistent [where cd = cd and fs = fs and input_dir = input_dir and log_csv = log_csv
      and grid_size = grid_size and image_size = image_size]
  obtain s' :: "('img, 'k) state" where "log_consistent grid_size s'"
    and "effects (stitch_images cd fs input_dir log_csv grid_size image_size)
            = trace s' @ [WriteLog (log_entries s')]"
    by auto
  then show ?thesis
    by (simp add: log_consistent_def quiet_def)
qed

lemma short_pool_not_rendered:
  fixes s :: "('img, 'k) state"
  assumes avail: "available_images s \<noteq> []"
    and short0: "int (length (images (collect cd fs grid_size image_size category subcategory
                   subcategory_path (s\<lparr>batch_log := [], images := []\<rparr>)))) < capacity grid_size"
  shows "\<exists>s'. batches cd fs grid_size image_size category subcategory subcategory_path s = Inr s' \<and>
           saved (trace s') = saved (trace s) \<and>
           ledger_writes (trace s') = ledger_writes (trace s) \<and>
           log_entries s' = log_entries s \<and>
           batch_number s' = batch_number s \<and>
           stitched_in_category s' = stitched_in_category s \<and>
           processed_in_category s' = processed_in_category s \<and>
           mset (images s') =
             mset (images (collect cd fs grid_size image_size category subcategory subcategory_path
                             (s\<lparr>batch_log := [], images := []\<rparr>)))"
proof -
  define s1 where "s1 = collect cd fs grid_size image_size category subcategory subcategory_path
                   (s\<lparr>batch_log := [], images := []\<rparr>)"
  have short: "int (length (images s1)) < capacity grid_size"
    using short0 by (simp add: s1_def)
  note frame = collect_frame [of cd fs grid_size image_size category subcategory subcategory_path
      "s\<lparr>batch_log := [], images := []\<rparr>", folded s1_def]
  have empty: "available_images s1 = []"
    using short unfolding s1_def by (rule collect_short_exhausts)
  show ?thesis
  proof (cases "images s1 = []")
    case True
    then have "batches cd fs grid_size image_size category subcategory subcategory_path s = Inr s1"
      using avail by (subst batches_unfold) (simp add: s1_def Let_def)
    with frame show ?thesis by (simp add: s1_def [symmetric])
  next
    case False
    define s2 where "s2 = s1\<lparr>images := group_images_by_blackness_whiteness_and_color (images s1)\<rparr>"
    have len: "length (images s2) = length (images s1)"
      by (simp add: s2_def group_images_by_blackness_whiteness_and_color_def)
    have "batches cd fs grid_size image_size category subcategory subcategory_path s2 = Inr s2"
      using empty by (subst batches_unfold) (simp add: s2_def)
    then have "batches cd fs grid_size image_size category subcategory subcategory_path s = Inr s2"
      using avail False short len
      by (subst batches_unfold) (simp add: s1_def [symmetric] s2_def [symmetric] Let_def)
    moreover have "mset (images s2) = mset (images s1)"
      by (simp add: s2_def group_mset)
    ultimately show ?thesis
      using frame by (simp add: s2_def s1_def [symmetric])
  qed
qed

text \<open>
  Claim C2.  Every stitched image saved by a run is made of exactly \<open>rows * cols\<close>
  pictures, and every entry written to the CSV file names a saved image.  When the inner
  loop ends with a pool of fewer than \<open>rows * cols\<close> pictures, the loop over the batches
  ends there: no image is saved, no log entry is kept, the batch number and the counters
  of processed pictures and stitched batches are unchanged.  The pictures of the short
  pool stay in memory only; their files are not touched (no effect of the model changes
  the input directory), so the next run meets them again.
\<close>

theorem only_full_batches_rendered:
  fixes cd :: "('c, 'img, 'h, 'k) codec" and s :: "('img, 'k) state"
  shows
  "(\<forall>(n, st) \<in> set (saved (effects (stitch_images cd fs input_dir log_csv grid_size image_size))).
      int (length (pastes st)) = capacity grid_size) \<and>
   (\<forall>rows \<in> set (ledger_writes (effects (stitch_images cd fs input_dir log_csv grid_size image_size))).
      \<forall>row \<in> set rows. row_name row \<in> fst ` set (saved
        (effects (stitch_images cd fs input_dir log_csv grid_size image_size)))) \<and>
   (available_images s \<noteq> [] \<and>
    int (length (images (collect cd fs grid_size image_size category subcategory subcategory_path
                           (s\<lparr>batch_log := [], images := []\<rparr>)))) < capacity grid_size \<longrightarrow>
      (\<exists>s'. batches cd fs grid_size image_size category subcategory subcategory_path s = Inr s' \<and>
           saved (trace s') = saved (trace s) \<and>
           ledger_writes (trace s') = ledger_writes (trace s) \<and>
           log_entries s' = log_entries s \<and>
           batch_number s' = batch_number s \<and>
           stitched_in_category s' = stitched_in_category s \<and>
           processed_in_category s' = processed_in_category s \<and>
           mset (images s') =
             mset (images (collect cd fs grid_size image_size category subcategory subcategory_path
                             (s\<lparr>batch_log := [], images := []\<rparr>)))))"
  using run_full_batches [where cd = cd and fs = fs and input_dir = input_dir and log_csv = log_csv
      and grid_size = grid_size and image_size = image_size]
    run_written_rows_saved [where cd = cd and fs = fs and input_dir = input_dir and log_csv = log_csv
      and grid_size = grid_size and image_size = image_size]
    short_pool_not_rendered [where cd = cd and fs = fs and grid_size = grid_size
      and image_size = image_size and category = category and subcategory = subcategory
      and subcategory_path = subcategory_path and s = s]
  unfolding full_batches_def by blast


lemma example_codec_sel [simp]:
  "hash_key example_codec h = h" "hash_str example_codec h = h" "str_key example_codec h = h"
  "save_ok example_codec n st"
  by (simp_all add: example_codec_def)

lemma example_short_pool:
  "images (collect example_codec example_tree (1, 2) (512, 512) ''Sketches'' ''main'' [''Sketches'']
     ((initial_state Map.empty)\<lparr>available_images := [''a.png'', ''copy.png'', ''x.png''],
        batch_log := [], images := []\<rparr>))
   = [(''A'', (0, 0, 0), 0, 0, ''a.png'')]"
  by (simp add: collect.simps check_image_def initial_state_def capacity_def Let_def)

theorem only_full_batches_rendered_witness:
  "available_images ((initial_state Map.empty :: (string, string) state)
       \<lparr>available_images := [''a.png'', ''copy.png'', ''x.png'']\<rparr>) \<noteq> [] \<and>
   int (length (images (collect example_codec example_tree (1, 2) (512, 512) ''Sketches'' ''main''
       [''Sketches'']
       ((initial_state Map.empty)\<lparr>available_images := [''a.png'', ''copy.png'', ''x.png''],
          batch_log := [], images := []\<rparr>)))) < capacity (1, 2) \<and>
   (\<exists>s'. batches example_codec example_tree (1, 2) (512, 512) ''Sketches'' ''main'' [''Sketches'']
            ((initial_state Map.empty)\<lparr>available_images := [''a.png'', ''copy.png'', ''x.png'']\<rparr>)
          = Inr s' \<and>
        saved (trace s') = [] \<and> log_entries s' = [] \<and> batch_number s' = 1 \<and>
        stitched_in_category s' = 0 \<and>
        mset (images s') = {#(''A'', (0, 0, 0), 0, 0, ''a.png'')#})"
proof -
  let ?s = "(initial_state Map.empty :: (string, string) state)
       \<lparr>available_images := [''a.png'', ''copy.png'', ''x.png'']\<rparr>"
  have a: "available_images ?s \<noteq> []" by simp
  have b: "int (length (images (collect example_codec example_tree (1, 2) (512, 512) ''Sketches''
       ''main'' [''Sketches''] (?s\<lparr>batch_log := [], images := []\<rparr>)))) < capacity (1, 2)"
    by (simp add: example_short_pool capacity_def)
  from a b only_full_batches_rendered [where cd = example_codec and fs = example_tree
      and grid_size = "(1, 2)" and image_size = "(512, 512)" and category = "''Sketches''"
      and subcategory = "''main''" and subcategory_path = "[''Sketches'']" and s = ?s]
  obtain s' where "batches example_codec example_tree (1, 2) (512, 512) ''Sketches'' ''main''
        [''Sketches''] ?s = Inr s'"
    and "saved (trace s') = saved (trace ?s)" and "log_entries s' = log_entries ?s"
    and "batch_number s' = batch_number ?s" and "stitched_in_category s' = stitched_in_category ?s"
    and "mset (images s') = mset (images (collect example_codec example_tree (1, 2) (512, 512)
        ''Sketches'' ''main'' [''Sketches''] (?s\<lparr>batch_log := [], images := []\<rparr>)))"
    by blast
  then have "batches example_codec example_tree (1, 2) (512, 512) ''Sketches'' ''main''
        [''Sketches''] ?s = Inr s' \<and>
        saved (trace s') = [] \<and> log_entries s' = [] \<and> batch_number s' = 1 \<and>
        stitched_in_category s' = 0 \<and>
        mset (images s') = {#(''A'', (0, 0, 0), 0, 0, ''a.png'')#}"
    by (simp add: example_short_pool) (simp add: initial_state_def)
  with a b show ?thesis by blast
qed

end
